theory Spec2Isabelle
  imports Complex_Main
begin

section \<open>Array values\<close>

text \<open>
  The notebooks compute on NumPy float arrays held in xarray \<open>DataArray\<close>s.  A cell
  holds a finite number, an infinity, or NaN, which is xarray's marker for a missing
  value.  Finite arithmetic is taken exact (no rounding, no overflow, one zero); the
  special values follow IEEE 754.
\<close>

datatype fl = Fin real | PInf | NInf | NaN

definition isnull :: "fl \<Rightarrow> bool" where
  "isnull v = (v = NaN)"

fun fneg :: "fl \<Rightarrow> fl" where
  "fneg (Fin a) = Fin (- a)"
| "fneg PInf = NInf"
| "fneg NInf = PInf"
| "fneg NaN = NaN"

fun fadd :: "fl \<Rightarrow> fl \<Rightarrow> fl" where
  "fadd (Fin a) (Fin b) = Fin (a + b)"
| "fadd NaN _ = NaN"
| "fadd _ NaN = NaN"
| "fadd PInf NInf = NaN"
| "fadd NInf PInf = NaN"
| "fadd PInf _ = PInf"
| "fadd _ PInf = PInf"
| "fadd NInf _ = NInf"
| "fadd _ NInf = NInf"

definition fsub :: "fl \<Rightarrow> fl \<Rightarrow> fl" where
  "fsub a b = fadd a (fneg b)"

fun fmul :: "fl \<Rightarrow> fl \<Rightarrow> fl" where
  "fmul (Fin a) (Fin b) = Fin (a * b)"
| "fmul NaN _ = NaN"
| "fmul _ NaN = NaN"
| "fmul PInf (Fin b) = (if b = 0 then NaN else if 0 < b then PInf else NInf)"
| "fmul NInf (Fin b) = (if b = 0 then NaN else if 0 < b then NInf else PInf)"
| "fmul (Fin a) PInf = (if a = 0 then NaN else if 0 < a then PInf else NInf)"
| "fmul (Fin a) NInf = (if a = 0 then NaN else if 0 < a then NInf else PInf)"
| "fmul PInf PInf = PInf"
| "fmul NInf NInf = PInf"
| "fmul PInf NInf = NInf"
| "fmul NInf PInf = NInf"

fun fdiv :: "fl \<Rightarrow> fl \<Rightarrow> fl" where
  "fdiv (Fin a) (Fin b) =
     (if b = 0 then (if a = 0 then NaN else if 0 < a then PInf else NInf) else Fin (a / b))"
| "fdiv NaN _ = NaN"
| "fdiv _ NaN = NaN"
| "fdiv (Fin a) _ = Fin 0"
| "fdiv PInf (Fin b) = (if 0 \<le> b then PInf else NInf)"
| "fdiv NInf (Fin b) = (if 0 \<le> b then NInf else PInf)"
| "fdiv _ _ = NaN"

fun fsqrt :: "fl \<Rightarrow> fl" where
  "fsqrt (Fin a) = (if a < 0 then NaN else Fin (sqrt a))"
| "fsqrt PInf = PInf"
| "fsqrt _ = NaN"

fun fabs :: "fl \<Rightarrow> fl" where
  "fabs (Fin a) = Fin \<bar>a\<bar>"
| "fabs NaN = NaN"
| "fabs _ = PInf"

text \<open>Comparisons: every comparison with NaN is false.\<close>

fun flt :: "fl \<Rightarrow> fl \<Rightarrow> bool" where
  "flt (Fin a) (Fin b) = (a < b)"
| "flt NaN _ = False"
| "flt _ NaN = False"
| "flt _ NInf = False"
| "flt PInf _ = False"
| "flt _ _ = True"

definition feq :: "fl \<Rightarrow> fl \<Rightarrow> bool" where
  "feq a b = (a \<noteq> NaN \<and> a = b)"

primrec fsum :: "fl list \<Rightarrow> fl" where
  "fsum [] = Fin 0"
| "fsum (v # vs) = fadd v (fsum vs)"

text \<open>\<^verbatim>\<open>np.mean\<close>: the sum over the count; NaN for an empty array.\<close>

definition np_mean :: "fl list \<Rightarrow> fl" where
  "np_mean vs = fdiv (fsum vs) (Fin (real (length vs)))"

text \<open>
  The reduction \<^verbatim>\<open>.mean(dim)\<close> of xarray on a float array skips NaN
  (\<^verbatim>\<open>skipna\<close> defaults to true for floats): the sum of the values that are not
  NaN over their count, and NaN when there is none.
\<close>

definition nanmean :: "fl list \<Rightarrow> fl" where
  "nanmean vs = np_mean (filter (\<lambda>v. \<not> isnull v) vs)"

text \<open>The Python exceptions the modelled code can raise.\<close>

datatype py_error = ValueError | KeyError | IndexError | OverflowError | ZeroDivisionError

section \<open>Time axis\<close>

text \<open>A monthly time stamp: calendar year and month (1 to 12).\<close>

record timestamp =
  year :: int
  month :: nat

text \<open>
  The accessor \<^verbatim>\<open>time.season\<close> of xarray labels a month \<open>m\<close> with entry
  \<open>(m // 3) % 4\<close> of \<^verbatim>\<open>["DJF", "MAM", "JJA", "SON"]\<close>.
\<close>

definition season_names :: "string list" where
  "season_names = [''DJF'', ''MAM'', ''JJA'', ''SON'']"

definition season_of_month :: "nat \<Rightarrow> string" where
  "season_of_month m = season_names ! ((m div 3) mod 4)"

definition season :: "timestamp \<Rightarrow> string" where
  "season ts = season_of_month (month ts)"

text \<open>
  A monthly axis of \<open>n\<close> consecutive months starting at year \<open>y\<close>, month \<open>m\<close>
  (what \<^verbatim>\<open>pd.date_range(start, periods=n, freq="MS")\<close> produces).
\<close>

fun month_seq :: "int \<Rightarrow> nat \<Rightarrow> nat \<Rightarrow> timestamp list" where
  "month_seq y m 0 = []"
| "month_seq y m (Suc n) =
     \<lparr>year = y, month = m\<rparr> #
     (if m = 12 then month_seq (y + 1) 1 n else month_seq y (Suc m) n)"

section \<open>Fields\<close>

text \<open>
  A \<open>DataArray\<close> over (time, latitude, longitude).  The values are stored cell by
  cell with the time axis innermost, \<open>data ! i ! j ! t\<close>, which is the layout
  \<^verbatim>\<open>apply_ufunc\<close> hands to a function whose core dimension is time.  \<open>coords\<close>
  holds the non-index coordinates over (latitude, longitude) that have been attached
  to the array by name.
\<close>

record dataarray =
  time :: "timestamp list"
  latitude :: "real list"
  longitude :: "real list"
  data :: "fl list list list"
  coords :: "string \<rightharpoonup> fl list list"

text \<open>A \<open>DataArray\<close> over (latitude, longitude): a climatology.\<close>

record dataarray2 =
  latitude2 :: "real list"
  longitude2 :: "real list"
  data2 :: "fl list list"

section \<open>Regional selection\<close>

text \<open>
  \<^verbatim>\<open>.sel(latitude=slice(latmax, latmin))\<close> on the descending latitude axis of
  ERA5 keeps the rows whose label lies between the two bounds, both included.
\<close>

definition lat_rows :: "real \<Rightarrow> real \<Rightarrow> real list \<Rightarrow> 'a list \<Rightarrow> 'a list" where
  "lat_rows latmax latmin lats rows =
     map snd (takeWhile (\<lambda>(l, r). latmin \<le> l) (dropWhile (\<lambda>(l, r). latmax < l) (zip lats rows)))"


definition sel_latitude :: "real \<Rightarrow> real \<Rightarrow> dataarray \<Rightarrow> dataarray" where
  "sel_latitude latmax latmin d =
     d\<lparr>latitude := lat_rows latmax latmin (latitude d) (latitude d),
       data := lat_rows latmax latmin (latitude d) (data d)\<rparr>"

text \<open>
  The mask of the notebook,
  \<^verbatim>\<open>(clim.longitude > 360+lonmin) | (clim.longitude < lonmax)\<close>,
  one truth value per longitude label.
\<close>

definition lon_mask :: "real \<Rightarrow> real \<Rightarrow> real \<Rightarrow> bool" where
  "lon_mask lonmin lonmax lon = (lon > 360 + lonmin \<or> lon < lonmax)"


definition where_lon :: "(real \<Rightarrow> bool) \<Rightarrow> dataarray \<Rightarrow> dataarray" where
  "where_lon cond d =
     d\<lparr>data := map (\<lambda>row. map2 (\<lambda>lon ser. if cond lon then ser else map (\<lambda>v. NaN) ser)
                                (longitude d) row)
                   (data d)\<rparr>"


section \<open>Climatologies\<close>

text \<open>\<^verbatim>\<open>clim = da.mean('time')\<close>: the mean over the time axis, cell by cell.\<close>

definition mean_time :: "dataarray \<Rightarrow> dataarray2" where
  "mean_time d =
     \<lparr>latitude2 = latitude d, longitude2 = longitude d, data2 = map (map nanmean) (data d)\<rparr>"

text \<open>
  \<^verbatim>\<open>.groupby('time.season')\<close>: the groups are the distinct season labels of the
  time axis in sorted order; a group holds the time steps that carry its label.
\<close>

definition group_keys :: "timestamp list \<Rightarrow> string list" where
  "group_keys ts = filter (\<lambda>g. g \<in> set (map season ts)) [''DJF'', ''JJA'', ''MAM'', ''SON'']"

definition group_members :: "string \<Rightarrow> timestamp list \<Rightarrow> 'a list \<Rightarrow> 'a list" where
  "group_members g ts vs = map snd (filter (\<lambda>(t, v). season t = g) (zip ts vs))"

text \<open>\<^verbatim>\<open>.groupby('time.season').mean('time')\<close>: one climatology per group.\<close>

definition groupby_season_mean :: "dataarray \<Rightarrow> (string \<times> dataarray2) list" where
  "groupby_season_mean d =
     map (\<lambda>g. (g, \<lparr>latitude2 = latitude d, longitude2 = longitude d,
                    data2 = map (map (\<lambda>ser. nanmean (group_members g (time d) ser))) (data d)\<rparr>))
         (group_keys (time d))"

text \<open>The seasonal climatologies of the region, \<^verbatim>\<open>clim_seas\<close>.\<close>

definition clim_seas ::
    "real \<Rightarrow> real \<Rightarrow> real \<Rightarrow> real \<Rightarrow> dataarray \<Rightarrow> (string \<times> dataarray2) list" where
  "clim_seas latmin latmax lonmin lonmax da =
     groupby_season_mean (where_lon (lon_mask lonmin lonmax) (sel_latitude latmax latmin da))"



definition count_based_mean :: "real list \<Rightarrow> fl" where
  "count_based_mean xs = (if xs = [] then NaN else Fin (sum_list xs / real (length xs)))"

section \<open>Linear regression\<close>

text \<open>
  The two-sided tail probability of Student's t distribution with \<open>df\<close> degrees of
  freedom, \<open>P(|T| \<ge> |t|)\<close>, which \<^verbatim>\<open>scipy.stats\<close> evaluates for the p-value.
  For a whole number of degrees of freedom it has the closed form below, in
  \<open>\<theta> = arctan (t / sqrt df)\<close>.
\<close>

definition coef_even :: "nat \<Rightarrow> real" where
  "coef_even k = (\<Prod>j = 1..k. (2 * real j - 1) / (2 * real j))"

definition coef_odd :: "nat \<Rightarrow> real" where
  "coef_odd k = (\<Prod>j = 1..k. (2 * real j) / (2 * real j + 1))"

definition student_A :: "nat \<Rightarrow> real \<Rightarrow> real" where
  "student_A df t =
     (let \<theta> = arctan (t / sqrt (real df)) in
      if even df
      then sin \<theta> * (\<Sum>k < df div 2. coef_even k * cos \<theta> ^ (2 * k))
      else 2 / pi * (\<theta> + sin \<theta> * cos \<theta> * (\<Sum>k < (df - 1) div 2. coef_odd k * cos \<theta> ^ (2 * k))))"

definition two_sided_p :: "nat \<Rightarrow> real \<Rightarrow> real" where
  "two_sided_p df t = 1 - student_A df \<bar>t\<bar>"

fun ttest_finish :: "int \<Rightarrow> fl \<Rightarrow> fl" where
  "ttest_finish df NaN = NaN"
| "ttest_finish df (Fin t) = (if df \<le> 0 then NaN else Fin (two_sided_p (nat df) t))"
| "ttest_finish df _ = (if df \<le> 0 then NaN else Fin 0)"

text \<open>
  \<^verbatim>\<open>scipy.stats.linregress(x, y)\<close>, the function the notebook maps over the cells.
  The result is the tuple (slope, intercept, rvalue, pvalue, stderr).  The entries of
  \<^verbatim>\<open>np.cov(x, y, bias=1)\<close> are the means of the products of the deviations from
  the means.  NaN is not filtered anywhere: it enters the sums.
\<close>

record linregress_result =
  slope :: fl
  intercept :: fl
  rvalue :: fl
  pvalue :: fl
  stderr :: fl

definition TINY :: real where
  "TINY = 1 / 10 ^ 20"

definition cov_bias :: "fl list \<Rightarrow> fl \<Rightarrow> fl list \<Rightarrow> fl \<Rightarrow> fl" where
  "cov_bias x xmean y ymean =
     np_mean (map2 (\<lambda>a b. fmul (fsub a xmean) (fsub b ymean)) x y)"

definition linregress_r :: "fl \<Rightarrow> fl \<Rightarrow> fl \<Rightarrow> fl" where
  "linregress_r ssxm ssxym ssym =
     (let r0 = fdiv ssxym (fsqrt (fmul ssxm ssym)) in
      if feq ssxm (Fin 0) \<or> feq ssym (Fin 0) then Fin 0
      else if flt (Fin 1) r0 then Fin 1
      else if flt r0 (Fin (- 1)) then Fin (- 1)
      else r0)"

definition linregress_t :: "int \<Rightarrow> fl \<Rightarrow> fl" where
  "linregress_t df r =
     fmul r (fsqrt (fdiv (Fin (of_int df))
       (fmul (fadd (fsub (Fin 1) r) (Fin TINY)) (fadd (fadd (Fin 1) r) (Fin TINY)))))"

definition linregress_stderr :: "int \<Rightarrow> fl \<Rightarrow> fl \<Rightarrow> fl \<Rightarrow> fl" where
  "linregress_stderr df r ssxm ssym =
     fsqrt (fdiv (fdiv (fmul (fsub (Fin 1) (fmul r r)) ssym) ssxm) (Fin (of_int df)))"

text \<open>
  \<^verbatim>\<open>np.amax(x) == np.amin(x)\<close>: all the entries of \<open>x\<close> are equal and none is NaN.
  \<^verbatim>\<open>linregress\<close> refuses such an \<open>x\<close> of more than one entry with a \<^verbatim>\<open>ValueError\<close>, as
  it refuses empty inputs; inputs of different lengths are refused by \<^verbatim>\<open>np.cov\<close>.
\<close>

definition all_identical :: "fl list \<Rightarrow> bool" where
  "all_identical x = list_all (\<lambda>v. feq v (hd x)) x"

definition linregress :: "fl list \<Rightarrow> fl list \<Rightarrow> py_error + linregress_result" where
  "linregress x y =
     (if x = [] \<or> y = [] then Inl ValueError
      else if 1 < length x \<and> all_identical x then Inl ValueError
      else if length x \<noteq> length y then Inl ValueError
      else
        let n = int (length x);
            xmean = np_mean x;
            ymean = np_mean y;
            ssxm = cov_bias x xmean x xmean;
            ssxym = cov_bias x xmean y ymean;
            ssym = cov_bias y ymean y ymean;
            r = linregress_r ssxm ssxym ssym;
            slope = fdiv ssxym ssxm;
            intercept = fsub ymean (fmul slope xmean);
            df = n - 2;
            prob = (if n = 2 then (if feq (y ! 0) (y ! 1) then Fin 1 else Fin 0)
                    else ttest_finish df (linregress_t df r));
            slope_stderr = (if n = 2 then Fin 0 else linregress_stderr df r ssxm ssym)
        in Inr \<lparr>slope = slope, intercept = intercept, rvalue = r, pvalue = prob,
                stderr = slope_stderr\<rparr>)"

section \<open>Reference statistics\<close>

text \<open>
  The textbook quantities the regression is compared with, over real numbers: the mean
  of a sample, the covariance of two samples (normalised by the sample size), the
  residual sum of squares of the line \<open>a + b * x\<close>, Pearson's correlation
  coefficient, and the t statistic of a correlation as \<^verbatim>\<open>linregress\<close> forms it.
\<close>

definition mean_of :: "real list \<Rightarrow> real" where
  "mean_of xs = sum_list xs / real (length xs)"

definition cov_of :: "real list \<Rightarrow> real list \<Rightarrow> real" where
  "cov_of xs ys =
     (\<Sum>(a, b) \<leftarrow> zip xs ys. (a - mean_of xs) * (b - mean_of ys)) / real (length xs)"


definition pearson :: "real list \<Rightarrow> real list \<Rightarrow> real" where
  "pearson xs ys = cov_of xs ys / sqrt (cov_of xs xs * cov_of ys ys)"


definition t_stat :: "real \<Rightarrow> real \<Rightarrow> real" where
  "t_stat df r = r * sqrt (df / ((1 - r + TINY) * (1 + r + TINY)))"

definition r_of :: "real list \<Rightarrow> real list \<Rightarrow> real" where
  "r_of xs ys = (if cov_of ys ys = 0 then 0 else pearson xs ys)"





section \<open>Per-cell trends\<close>

text \<open>The results of a list of calls; the first exception raised ends the run.\<close>

fun collect :: "('e + 'a) list \<Rightarrow> 'e + 'a list" where
  "collect [] = Inr []"
| "collect (r # rs) =
     (case r of
        Inl e \<Rightarrow> Inl e
      | Inr v \<Rightarrow> (case collect rs of Inl e \<Rightarrow> Inl e | Inr vs \<Rightarrow> Inr (v # vs)))"

text \<open>
  The notebook's function
  \<^verbatim>\<open>
  def trend(x, y, dim):
      return xr.apply_ufunc(
          stats.linregress, x, y,
          input_core_dims=[[dim], [dim]],
          output_core_dims=[[], [], [], [], []],
          vectorize=True
      )
  \<close>
  with \<open>x\<close> a one-dimensional array over time and \<open>y\<close> a field.  The function is
  called once per cell with \<open>x\<close> and the cell's series; the five outputs are arrays
  over (latitude, longitude).  A core dimension \<open>dim\<close> (here \<open>cdim\<close>) that \<open>x\<close> does
  not have is an error,
  and so is a field without any cell (\<^verbatim>\<open>np.vectorize\<close> refuses inputs of size 0).
\<close>

definition trend :: "fl list \<Rightarrow> dataarray \<Rightarrow> string \<Rightarrow> py_error + fl list list list" where
  "trend x y cdim =
     (if cdim \<noteq> ''time'' then Inl ValueError
      else if concat (data y) = [] then Inl ValueError
      else case collect (map (\<lambda>row. collect (map (linregress x) row)) (data y)) of
             Inl e \<Rightarrow> Inl e
           | Inr res \<Rightarrow>
               Inr [map (map slope) res, map (map intercept) res, map (map rvalue) res,
                    map (map pvalue) res, map (map stderr) res])"

text \<open>\<^verbatim>\<open>da_year['time.year']\<close>: the calendar years of the time axis.\<close>

definition time_year :: "dataarray \<Rightarrow> fl list" where
  "time_year d = map (\<lambda>t. Fin (of_int (year t))) (time d)"

text \<open>\<^verbatim>\<open>da[name] = arr\<close> attaches \<open>arr\<close> to the array as the coordinate \<open>name\<close>.\<close>

definition setitem :: "dataarray \<Rightarrow> string \<Rightarrow> fl list list \<Rightarrow> dataarray" where
  "setitem d name arr = d\<lparr>coords := (coords d)(name \<mapsto> arr)\<rparr>"

definition trend_names :: "string list" where
  "trend_names = [''slope'', ''intercept'', ''rvalue'', ''pvalue'', ''stderr'']"

text \<open>
  The cell that stores the trends,
  \<^verbatim>\<open>
  for arr_name, arr in zip(
      ['slope', 'intercept', 'rvalue', 'pvalue', 'stderr'],
      trend(da_year['time.year'], da_year, 'time')
  ):
      da_year[arr_name] = arr
  \<close>
  as a function from the state of \<open>da_year\<close> before to its state after; an
  exception in \<open>trend\<close> leaves it as it was.
\<close>

definition assign_trends :: "dataarray \<Rightarrow> py_error + dataarray" where
  "assign_trends da_year =
     (case trend (time_year da_year) da_year ''time'' of
        Inl e \<Rightarrow> Inl e
      | Inr arrs \<Rightarrow>
          Inr (fold (\<lambda>(arr_name, arr) d. setitem d arr_name arr) (zip trend_names arrs) da_year))"

section \<open>Area-weighted spatial average\<close>

text \<open>
  Modelled from the spec: \<^verbatim>\<open>u.spatial_average\<close> lives in the \<^verbatim>\<open>utils\<close> folder of the
  repository, which is not among the sources; the notebooks only call it.  The
  definitions of this section follow section 4.2 of the specification.
\<close>

text \<open>Modelled from the spec: the weight of a latitude, the cosine of its radians.\<close>

definition coslat :: "real \<Rightarrow> real" where
  "coslat lat = cos (lat * pi / 180)"

text \<open>Modelled from the spec: the cells of one time step, each with its latitude.\<close>

definition cells_at :: "dataarray \<Rightarrow> nat \<Rightarrow> (real \<times> fl) list" where
  "cells_at d t = concat (map2 (\<lambda>lat row. map (\<lambda>ser. (lat, ser ! t)) row) (latitude d) (data d))"

text \<open>Modelled from the spec: the included cells are those that are not missing.\<close>

definition included :: "(real \<times> fl) list \<Rightarrow> (real \<times> fl) list" where
  "included wvs = filter (\<lambda>(w, v). \<not> isnull v) wvs"

text \<open>Modelled from the spec: the weight-sum denominator, over the included cells.\<close>

definition weight_sum :: "(real \<times> fl) list \<Rightarrow> real" where
  "weight_sum wvs = sum_list (map fst (included wvs))"

text \<open>Modelled from the spec: the weights of the included cells, normalised.\<close>

definition normalized_weights :: "(real \<times> fl) list \<Rightarrow> real list" where
  "normalized_weights wvs = map (\<lambda>(w, v). w / weight_sum wvs) (included wvs)"

text \<open>
  Modelled from the spec: the weighted sum of the included values (the numerator) over
  the sum of their weights (the denominator).
\<close>

definition weighted_mean :: "(real \<times> fl) list \<Rightarrow> fl" where
  "weighted_mean wvs =
     fdiv (fsum (map (\<lambda>(w, v). fmul (Fin w) v) (included wvs))) (Fin (weight_sum wvs))"

text \<open>
  Modelled from the spec: the spatial average of a field, one scalar per time step, with
  weights proportional to the cosine of the latitude.
\<close>

definition spatial_average :: "dataarray \<Rightarrow> fl list" where
  "spatial_average d =
     map (\<lambda>t. weighted_mean (map (\<lambda>(lat, v). (coslat lat, v)) (cells_at d t)))
         [0..<length (time d)]"

section \<open>Human-readable sizes\<close>

text \<open>
  \<^verbatim>\<open>convert_size\<close> of \<^verbatim>\<open>02_ERA5.ipynb\<close> works in double-precision floats: \<^verbatim>\<open>math.log\<close>,
  \<^verbatim>\<open>math.pow\<close> and the division all convert the integer \<^verbatim>\<open>size_bytes\<close> to a float first.
  A finite float is modelled by the real number it holds.

  The string \<^verbatim>\<open>"%s %s" % (s, u)\<close> is kept as the pair of the float and the unit name it
  is formatted from.
\<close>

datatype py_str = Literal string | Percent_s_s fl string

text \<open>
  The logarithm of the platform's C library, through which \<^verbatim>\<open>math.log(x, 1024)\<close> is
  computed (as the quotient of two natural logarithms); its roundings differ from one
  platform to another, so it is a parameter: \<open>log_1024\<close> on a float, and \<open>log_1024_long\<close>
  on an integer too large for a float, for which \<^verbatim>\<open>math.log\<close> works from the integer's
  mantissa and exponent.
\<close>

record libm =
  log_1024 :: "real \<Rightarrow> real"
  log_1024_long :: "int \<Rightarrow> real"

text \<open>The number of bits of a natural number (\<^verbatim>\<open>int.bit_length\<close>).\<close>

fun bit_length :: "nat \<Rightarrow> nat" where
  "bit_length n = (if n = 0 then 0 else Suc (bit_length (n div 2)))"

declare bit_length.simps [simp del]

text \<open>
  The conversion of a Python integer to a float: the integer is rounded to 53
  significant bits, a tie going to the even mantissa, and the conversion raises
  \<^verbatim>\<open>OverflowError\<close> when the rounded value reaches \<open>2 ^ 1024\<close>.
\<close>

definition float_of_int :: "int \<Rightarrow> py_error + real" where
  "float_of_int n =
     (let a = nat \<bar>n\<bar>; e = bit_length a - 53;
          q = a div 2 ^ e; r = a mod 2 ^ e;
          m = (if 2 * r > 2 ^ e \<or> (2 * r = 2 ^ e \<and> odd q) then q + 1 else q);
          x = m * 2 ^ e
      in if 2 ^ 1024 \<le> x then Inl OverflowError else Inr (of_int (sgn n * int x)))"

text \<open>
  \<^verbatim>\<open>math.log(n, 1024)\<close> on an integer: a domain error unless the integer is positive;
  the logarithm of the float the integer converts to, when it converts to one.
\<close>

definition math_log :: "libm \<Rightarrow> int \<Rightarrow> py_error + real" where
  "math_log m n =
     (if n \<le> 0 then Inl ValueError
      else case float_of_int n of
             Inr x \<Rightarrow> Inr (log_1024 m x)
           | Inl e \<Rightarrow> Inr (log_1024_long m n))"

text \<open>
  \<^verbatim>\<open>math.pow(1024, i)\<close>: the power of two \<open>2 ^ (10 * i)\<close>, which is a float exactly when
  \<open>- 1074 \<le> 10 * i < 1024\<close>; above, \<^verbatim>\<open>math.pow\<close> raises \<^verbatim>\<open>OverflowError\<close>, below, the result
  underflows to zero.
\<close>

definition math_pow :: "int \<Rightarrow> py_error + real" where
  "math_pow i =
     (if 1024 \<le> 10 * i then Inl OverflowError
      else if 10 * i < - 1074 then Inr 0
      else if 0 \<le> i then Inr (1024 ^ nat i)
      else Inr (1 / 1024 ^ nat (- i)))"

text \<open>
  \<^verbatim>\<open>size_bytes / p\<close>, an integer divided by a float: the integer is converted to a float,
  a zero divisor raises \<^verbatim>\<open>ZeroDivisionError\<close>, and a quotient beyond the range of the
  floats is an infinity.  The divisor is a power of two, so that no other quotient is
  rounded.
\<close>

definition truediv :: "int \<Rightarrow> real \<Rightarrow> py_error + fl" where
  "truediv n p =
     (case float_of_int n of
        Inl e \<Rightarrow> Inl e
      | Inr x \<Rightarrow>
          if p = 0 then Inl ZeroDivisionError
          else if 2 ^ 1024 \<le> x / p then Inr PInf
          else if x / p \<le> - (2 ^ 1024) then Inr NInf
          else Inr (Fin (x / p)))"

text \<open>Rounding to the nearest integer, a tie going to the even one.\<close>

definition round_half_even :: "real \<Rightarrow> int" where
  "round_half_even x =
     (let f = \<lfloor>x\<rfloor>; d = x - of_int f
      in if d < 1 / 2 then f else if 1 / 2 < d then f + 1 else if even f then f else f + 1)"

text \<open>
  \<^verbatim>\<open>round(q, 2)\<close>: the value of the float rounded to two decimals; an infinity is
  returned as it is.
\<close>

fun round_2 :: "fl \<Rightarrow> fl" where
  "round_2 (Fin x) = Fin (of_int (round_half_even (x * 100)) / 100)"
| "round_2 v = v"

text \<open>
  Indexing a tuple: a negative index counts from the end, and an index outside the
  tuple raises \<^verbatim>\<open>IndexError\<close>.
\<close>

definition tuple_getitem :: "'a list \<Rightarrow> int \<Rightarrow> py_error + 'a" where
  "tuple_getitem xs i =
     (let n = int (length xs)
      in if 0 \<le> i \<and> i < n then Inr (xs ! nat i)
         else if - n \<le> i \<and> i < 0 then Inr (xs ! nat (i + n))
         else Inl IndexError)"

definition size_name :: "string list" where
  "size_name = [''B'', ''KB'', ''MB'', ''GB'', ''TB'', ''PB'', ''EB'', ''ZB'', ''YB'']"

text \<open>The function, statement by statement; the unit name is looked up last.\<close>

definition convert_size :: "libm \<Rightarrow> int \<Rightarrow> py_error + py_str" where
  "convert_size m size_bytes =
     (if size_bytes = 0 then Inr (Literal ''0B'')
      else case math_log m size_bytes of
        Inl e \<Rightarrow> Inl e
      | Inr l \<Rightarrow>
          let i = \<lfloor>l\<rfloor> in
          case math_pow i of
            Inl e \<Rightarrow> Inl e
          | Inr p \<Rightarrow>
              (case truediv size_bytes p of
                 Inl e \<Rightarrow> Inl e
               | Inr q \<Rightarrow>
                   let s = round_2 q in
                   case tuple_getitem size_name i of
                     Inl e \<Rightarrow> Inl e
                   | Inr u \<Rightarrow> Inr (Percent_s_s s u)))"

section \<open>Example fields\<close>



definition gappy :: dataarray where
  "gappy =
     \<lparr>time = month_seq 1979 12 3, latitude = [45], longitude = [2, 3, 4],
      data = [[[Fin 1, NaN, Fin 4], [NaN, NaN, NaN], [Fin 2, Fin 4, Fin 9]]],
      coords = Map.empty\<rparr>"

definition warming :: dataarray where
  "warming =
     \<lparr>time = [\<lparr>year = 1979, month = 12\<rparr>, \<lparr>year = 1980, month = 12\<rparr>,
              \<lparr>year = 1981, month = 12\<rparr>, \<lparr>year = 1982, month = 12\<rparr>],
      latitude = [45], longitude = [2, 3],
      data = [[[Fin 1, Fin 3, Fin 5, Fin 7], [Fin 1, Fin 3, Fin 5, NaN]]],
      coords = Map.empty\<rparr>"


definition polar :: dataarray where
  "polar =
     \<lparr>time = month_seq 1979 12 2, latitude = [90, 60, 0], longitude = [0, 180],
      data = [[[Fin 5, Fin 5], [NaN, Fin 5]],
              [[Fin 5, NaN], [Fin 5, Fin 5]],
              [[NaN, Fin 5], [Fin 5, NaN]]],
      coords = Map.empty\<rparr>"

text \<open>A C library whose logarithm to the base 1024 is exact.\<close>

definition exact_libm :: libm where
  "exact_libm = \<lparr>log_1024 = log 1024, log_1024_long = (\<lambda>n. log 1024 (of_int n))\<rparr>"

section \<open>The longitude window across the prime meridian\<close>





section \<open>Means that skip missing values\<close>

lemma fsum_Fin: "fsum (map Fin xs) = Fin (sum_list xs)"
  by (induction xs) auto


lemma np_mean_Fin: "np_mean (map Fin xs) = count_based_mean xs"
  by (simp add: np_mean_def fsum_Fin count_based_mean_def)


lemma nanmean_no_missing: "nanmean (map Fin xs) = count_based_mean xs"
proof -
  have "filter (\<lambda>v. \<not> isnull v) (map Fin xs) = map Fin xs"
    by (induction xs) (simp_all add: isnull_def)
  then show ?thesis
    by (simp add: nanmean_def np_mean_Fin)
qed


lemma mean_time_cell:
  "i < length (data d) \<Longrightarrow> j < length (data d ! i) \<Longrightarrow>
   data2 (mean_time d) ! i ! j = nanmean (data d ! i ! j)"
  by (simp add: mean_time_def)




text \<open>
  C5.  Where a cell's series has no missing value, the overall climatology at the cell
  is the sum of the samples divided by their number.
\<close>

theorem overall_mean_is_sum_over_count:
  assumes "i < length (data d)" "j < length (data d ! i)"
    and "data d ! i ! j = map Fin xs"
  shows "data2 (mean_time d) ! i ! j = fdiv (Fin (sum_list xs)) (Fin (real (length xs)))
    \<and> (xs \<noteq> [] \<longrightarrow> data2 (mean_time d) ! i ! j = Fin (sum_list xs / real (length xs)))"
  using assms by (simp add: mean_time_cell nanmean_no_missing count_based_mean_def)


theorem overall_mean_is_sum_over_count_witness:
  "data2 (mean_time gappy) ! 0 ! 2 = Fin 5"
  using overall_mean_is_sum_over_count [of 0 gappy 2 "[2, 4, 9]"]
  by (simp add: gappy_def)

section \<open>Seasonal grouping\<close>






lemma month_seq_length: "length (month_seq y m n) = n"
  by (induction n arbitrary: y m) auto



















section \<open>Least squares\<close>

lemma zip_sum_nth:
  assumes "length xs = length ys"
  shows "(\<Sum>(a, b) \<leftarrow> zip xs ys. f a b) = (\<Sum>k < length xs. f (xs ! k) (ys ! k))"
proof -
  have "(\<Sum>(a, b) \<leftarrow> zip xs ys. f a b) = (\<Sum>k = 0..<length (zip xs ys). case zip xs ys ! k of (a, b) \<Rightarrow> f a b)"
    by (simp add: sum_list_sum_nth)
  also have "\<dots> = (\<Sum>k < length xs. f (xs ! k) (ys ! k))"
    using assms by (intro sum.cong) (auto simp: lessThan_atLeast0)
  finally show ?thesis .
qed



lemma cov_of_nth:
  assumes "length xs = length ys"
  shows "real (length xs) * cov_of xs ys =
     (\<Sum>k < length xs. (xs ! k - mean_of xs) * (ys ! k - mean_of ys))"
  unfolding cov_of_def zip_sum_nth[OF assms] by simp

lemma cov_self_nonneg: "0 \<le> cov_of xs xs"
  unfolding cov_of_def
  by (intro divide_nonneg_nonneg sum_list_nonneg) (auto simp: zip_same)



section \<open>The tail of Student's t distribution\<close>







section \<open>The regression on finite and on missing values\<close>

lemma fadd_NaN_right [simp]: "fadd v NaN = NaN"
  by (cases v) simp_all

lemma fmul_NaN_right [simp]: "fmul v NaN = NaN"
  by (cases v) simp_all

lemma fdiv_NaN_right [simp]: "fdiv v NaN = NaN"
  by (cases v) simp_all

lemma fsub_NaN [simp]: "fsub v NaN = NaN" "fsub NaN v = NaN"
  by (simp_all add: fsub_def)

lemma flt_NaN_right [simp]: "flt v NaN = False"
  by (cases v) simp_all

lemma fsub_Fin [simp]: "fsub (Fin a) (Fin b) = Fin (a - b)"
  by (simp add: fsub_def)

lemma fsum_NaN: "NaN \<in> set vs \<Longrightarrow> fsum vs = NaN"
  by (induction vs) auto

lemma np_mean_NaN: "NaN \<in> set vs \<Longrightarrow> np_mean vs = NaN"
  by (simp add: np_mean_def fsum_NaN)

lemma np_mean_finite: "xs \<noteq> [] \<Longrightarrow> np_mean (map Fin xs) = Fin (mean_of xs)"
  by (simp add: np_mean_def fsum_Fin mean_of_def)

lemma cov_bias_finite:
  assumes "length xs = length ys" "xs \<noteq> []"
  shows "cov_bias (map Fin xs) (Fin (mean_of xs)) (map Fin ys) (Fin (mean_of ys)) =
         Fin (cov_of xs ys)"
proof -
  define zs where "zs = map (\<lambda>(a, b). (a - mean_of xs) * (b - mean_of ys)) (zip xs ys)"
  have len: "length zs = length xs"
    using assms(1) by (simp add: zs_def)
  have "map2 (\<lambda>a b. fmul (fsub a (Fin (mean_of xs))) (fsub b (Fin (mean_of ys))))
          (map Fin xs) (map Fin ys) = map Fin zs"
    by (simp add: zs_def zip_map_map case_prod_unfold)
  then have "cov_bias (map Fin xs) (Fin (mean_of xs)) (map Fin ys) (Fin (mean_of ys)) =
      np_mean (map Fin zs)"
    by (simp only: cov_bias_def)
  also have "\<dots> = fdiv (Fin (sum_list zs)) (Fin (real (length xs)))"
    by (simp add: np_mean_def fsum_Fin len)
  also have "\<dots> = Fin (sum_list zs / real (length xs))"
    using assms(2) by simp
  finally show ?thesis
    by (simp add: cov_of_def zs_def)
qed

lemma cov_bias_NaN_right:
  assumes "length x = length y" "x \<noteq> []"
  shows "cov_bias x xm y NaN = NaN"
proof -
  have "map2 (\<lambda>a b. fmul (fsub a xm) (fsub b NaN)) x y = replicate (length x) NaN"
    using assms(1) by (induction x y rule: list_induct2) simp_all
  moreover have "NaN \<in> set (replicate (length x) NaN)"
    using assms(2) by simp
  ultimately show ?thesis
    by (simp add: cov_bias_def np_mean_NaN del: set_replicate)
qed

lemma cov_bias_NaN_left:
  assumes "length x = length y" "x \<noteq> []"
  shows "cov_bias x NaN y ym = NaN"
proof -
  have "map2 (\<lambda>a b. fmul (fsub a NaN) (fsub b ym)) x y = replicate (length x) NaN"
    using assms(1) by (induction x y rule: list_induct2) simp_all
  moreover have "NaN \<in> set (replicate (length x) NaN)"
    using assms(2) by simp
  ultimately show ?thesis
    by (simp add: cov_bias_def np_mean_NaN del: set_replicate)
qed

lemma cov_cauchy_schwarz:
  assumes len: "length xs = length ys"
  shows "(cov_of xs ys)\<^sup>2 \<le> cov_of xs xs * cov_of ys ys"
proof (cases "xs = []")
  case True
  then show ?thesis by (simp add: cov_of_def)
next
  case ne: False
  let ?n = "length xs"
  have n: "0 < real ?n" using ne by simp
  define u where "u = (\<lambda>k. xs ! k - mean_of xs)"
  define v where "v = (\<lambda>k. ys ! k - mean_of ys)"
  have suv: "(\<Sum>k < ?n. u k * v k) = real ?n * cov_of xs ys"
    unfolding u_def v_def by (rule cov_of_nth[OF len, symmetric])
  have suu: "(\<Sum>k < ?n. u k * u k) = real ?n * cov_of xs xs"
    unfolding u_def by (rule cov_of_nth[OF refl, symmetric])
  have svv: "(\<Sum>k < ?n. v k * v k) = real ?n * cov_of ys ys"
    unfolding v_def len by (rule cov_of_nth[OF refl, symmetric])
  have quad: "0 \<le> cov_of ys ys - 2 * t * cov_of xs ys + t\<^sup>2 * cov_of xs xs" for t
  proof -
    have "(v k - t * u k)\<^sup>2 = v k * v k - 2 * t * (u k * v k) + t\<^sup>2 * (u k * u k)" for k
      by (simp add: power2_eq_square algebra_simps)
    then have "(\<Sum>k < ?n. (v k - t * u k)\<^sup>2) =
        (\<Sum>k < ?n. v k * v k - 2 * t * (u k * v k) + t\<^sup>2 * (u k * u k))"
      by simp
    also have "\<dots> = real ?n * cov_of ys ys - 2 * t * (real ?n * cov_of xs ys)
          + t\<^sup>2 * (real ?n * cov_of xs xs)"
      by (simp only: sum.distrib sum_subtractf sum_distrib_left[symmetric] suv suu svv)
    also have "\<dots> = real ?n * (cov_of ys ys - 2 * t * cov_of xs ys + t\<^sup>2 * cov_of xs xs)"
      by (simp add: algebra_simps)
    finally have eq: "(\<Sum>k < ?n. (v k - t * u k)\<^sup>2) =
        real ?n * (cov_of ys ys - 2 * t * cov_of xs ys + t\<^sup>2 * cov_of xs xs)" .
    have "0 \<le> (\<Sum>k < ?n. (v k - t * u k)\<^sup>2)"
      by (intro sum_nonneg) simp
    with n show ?thesis
      unfolding eq by (simp only: zero_le_mult_iff) linarith
  qed
  show ?thesis
  proof (cases "cov_of xs xs = 0")
    case True
    have "cov_of xs ys = 0"
    proof (rule ccontr)
      assume nz: "cov_of xs ys \<noteq> 0"
      from quad[of "(cov_of ys ys + 1) / (2 * cov_of xs ys)"] True nz
      show False by (simp add: field_simps)
    qed
    with True show ?thesis by simp
  next
    case False
    with cov_self_nonneg[of xs] have pos: "0 < cov_of xs xs" by simp
    from quad[of "cov_of xs ys / cov_of xs xs"] pos
    have "0 \<le> cov_of ys ys - (cov_of xs ys)\<^sup>2 / cov_of xs xs"
      by (simp add: power2_eq_square field_simps)
    with pos show ?thesis
      by (simp add: field_simps)
  qed
qed

lemma abs_div_le_one:
  fixes a d :: real
  assumes "\<bar>a\<bar> \<le> d"
  shows "\<bar>a / d\<bar> \<le> 1"
proof (cases "d = 0")
  case True
  then show ?thesis by simp
next
  case False
  with assms have "0 < d" by linarith
  with assms show ?thesis by (simp add: abs_divide)
qed

lemma pearson_bounds:
  assumes "length xs = length ys"
  shows "- 1 \<le> pearson xs ys" "pearson xs ys \<le> 1"
proof -
  have "\<bar>cov_of xs ys\<bar>\<^sup>2 \<le> cov_of xs xs * cov_of ys ys"
    using cov_cauchy_schwarz[OF assms] by simp
  then have "\<bar>cov_of xs ys\<bar> \<le> sqrt (cov_of xs xs * cov_of ys ys)"
    by (rule real_le_rsqrt)
  then have "\<bar>pearson xs ys\<bar> \<le> 1"
    unfolding pearson_def by (rule abs_div_le_one)
  then show "- 1 \<le> pearson xs ys" "pearson xs ys \<le> 1" by simp_all
qed

lemma variance_zero_const:
  assumes "cov_of xs xs = 0" "i < length xs"
  shows "xs ! i = mean_of xs"
proof -
  have "(\<Sum>k < length xs. (xs ! k - mean_of xs) * (xs ! k - mean_of xs)) = 0"
    using cov_of_nth[OF refl, of xs] assms(1) by simp
  then have "\<forall>k \<in> {..<length xs}. (xs ! k - mean_of xs) * (xs ! k - mean_of xs) = 0"
    by (subst (asm) sum_nonneg_eq_0_iff) auto
  with assms(2) show ?thesis by auto
qed

lemma distinct_variance:
  assumes "distinct xs" "2 \<le> length xs"
  shows "cov_of xs xs \<noteq> 0"
proof
  assume z: "cov_of xs xs = 0"
  from assms(2) have "0 < length xs" "1 < length xs" by auto
  with z have "xs ! 0 = mean_of xs" "xs ! 1 = mean_of xs"
    by (auto intro: variance_zero_const)
  then have "xs ! 0 = xs ! 1" by simp
  moreover from assms have "(xs ! 0 = xs ! 1) = ((0::nat) = 1)"
    by (intro nth_eq_iff_index_eq) auto
  ultimately show False by simp
qed

lemma TINY_pos: "0 < TINY"
  by (simp add: TINY_def)

lemma r_of_bounds:
  assumes "length xs = length ys"
  shows "- 1 \<le> r_of xs ys" "r_of xs ys \<le> 1"
  using pearson_bounds[OF assms] by (simp_all add: r_of_def)

lemma linregress_r_finite:
  assumes len: "length xs = length ys" and var: "cov_of xs xs \<noteq> 0"
  shows "linregress_r (Fin (cov_of xs xs)) (Fin (cov_of xs ys)) (Fin (cov_of ys ys)) =
           Fin (r_of xs ys)"
proof (cases "cov_of ys ys = 0")
  case True
  then show ?thesis by (simp add: linregress_r_def feq_def r_of_def)
next
  case False
  have vx: "0 < cov_of xs xs" using var cov_self_nonneg[of xs] by simp
  have vy: "0 < cov_of ys ys" using False cov_self_nonneg[of ys] by simp
  have "fsqrt (fmul (Fin (cov_of xs xs)) (Fin (cov_of ys ys))) =
      Fin (sqrt (cov_of xs xs * cov_of ys ys))" 
    and "(sqrt (cov_of xs xs * cov_of ys ys) = 0) = False"
    using vx vy by (simp_all add: not_less)
  then have "fdiv (Fin (cov_of xs ys)) (fsqrt (fmul (Fin (cov_of xs xs)) (Fin (cov_of ys ys)))) =
      Fin (pearson xs ys)"
    by (simp only: fdiv.simps if_False pearson_def)
  with False var pearson_bounds[OF len] show ?thesis
    by (simp add: linregress_r_def feq_def r_of_def Let_def)
qed

lemma linregress_t_finite:
  assumes "- 1 \<le> r" "r \<le> 1" "0 \<le> df"
  shows "linregress_t df (Fin r) = Fin (t_stat (of_int df) r)"
proof -
  define q where "q = (1 - r + TINY) * (1 + r + TINY)"
  have q: "0 < q"
    unfolding q_def using assms(1,2) TINY_pos by (intro mult_pos_pos) linarith+
  have "fmul (fadd (fsub (Fin 1) (Fin r)) (Fin TINY)) (fadd (fadd (Fin 1) (Fin r)) (Fin TINY)) = Fin q"
    by (simp add: q_def)
  moreover have "fdiv (Fin (of_int df)) (Fin q) = Fin (of_int df / q)"
    using q by simp
  moreover have "\<not> real_of_int df / q < 0"
    using q assms(3) by (simp add: not_less)
  then have "fsqrt (Fin (of_int df / q)) = Fin (sqrt (of_int df / q))"
    by simp
  ultimately show ?thesis
    by (simp only: linregress_t_def fmul.simps t_stat_def q_def)
qed

lemma linregress_stderr_finite:
  assumes "- 1 \<le> r" "r \<le> 1" "0 < df" "0 < vx" "0 \<le> vy"
  shows "linregress_stderr df (Fin r) (Fin vx) (Fin vy) =
           Fin (sqrt ((1 - r * r) * vy / vx / of_int df))"
proof -
  have "0 \<le> (1 - r) * (1 + r)" using assms(1,2) by (intro mult_nonneg_nonneg) linarith+
  then have "0 \<le> 1 - r * r" by (simp add: algebra_simps)
  with assms(3-5) have "0 \<le> (1 - r * r) * vy / vx / real_of_int df"
    by (intro divide_nonneg_nonneg mult_nonneg_nonneg) simp_all
  then have "\<not> (1 - r * r) * vy / vx / real_of_int df < 0"
    by (simp only: not_less)
  moreover have "real_of_int df \<noteq> 0" "vx \<noteq> 0" using assms(3,4) by simp_all
  ultimately show ?thesis
    by (simp add: linregress_stderr_def)
qed

lemma identical_variance:
  assumes "all_identical (map Fin xs)"
  shows "cov_of xs xs = 0"
proof (cases "xs = []")
  case True
  then show ?thesis by (simp add: cov_of_def)
next
  case False
  define c where "c = hd xs"
  define n where "n = length xs"
  from assms have "\<forall>v \<in> set xs. v = c"
    using False by (auto simp: all_identical_def list_all_iff feq_def hd_map c_def)
  then have xs: "xs = replicate n c"
    unfolding n_def by (simp add: replicate_length_same)
  from False have n: "0 < n" by (simp add: n_def)
  have "mean_of (replicate n c) = c"
    using n by (simp add: mean_of_def sum_list_replicate)
  then show ?thesis
    unfolding xs by (simp add: cov_of_def zip_replicate sum_list_replicate)
qed

lemma varying_covariate:
  assumes "cov_of xs xs \<noteq> 0"
  shows "(1 < length xs \<and> all_identical (map Fin xs)) = False"
    and "\<not> all_identical (map Fin xs)"
  using assms identical_variance by blast+

lemma variance_needs_two:
  assumes "cov_of xs xs \<noteq> 0"
  shows "2 \<le> length xs"
proof (rule ccontr)
  assume "\<not> 2 \<le> length xs"
  then have "xs = [] \<or> (\<exists>x. xs = [x])"
    by (cases xs; cases "tl xs") auto
  then have "cov_of xs xs = 0"
    by (auto simp: cov_of_def mean_of_def)
  with assms show False by simp
qed

lemma linregress_finite:
  assumes len: "length xs = length ys" and var: "cov_of xs xs \<noteq> 0"
  shows "linregress (map Fin xs) (map Fin ys) =
    Inr \<lparr>slope = Fin (cov_of xs ys / cov_of xs xs),
         intercept = Fin (mean_of ys - cov_of xs ys / cov_of xs xs * mean_of xs),
         rvalue = Fin (r_of xs ys),
         pvalue = (if length xs = 2 then (if ys ! 0 = ys ! 1 then Fin 1 else Fin 0)
                   else Fin (two_sided_p (length xs - 2)
                               (t_stat (real (length xs - 2)) (r_of xs ys)))),
         stderr = (if length xs = 2 then Fin 0
                   else Fin (sqrt ((1 - r_of xs ys * r_of xs ys) * cov_of ys ys / cov_of xs xs
                                   / real (length xs - 2))))\<rparr>"
proof -
  let ?n = "length xs"
  let ?r = "r_of xs ys"
  have ne: "xs \<noteq> []" "ys \<noteq> []" using var len by (auto simp: cov_of_def)
  have lne: "(length xs \<noteq> length ys) = False" "(xs = []) = False" "(ys = []) = False"
      "(1 < length xs \<and> all_identical (map Fin xs)) = False"
    using len ne varying_covariate[OF var] by simp_all
  have vx: "0 < cov_of xs xs" using var cov_self_nonneg[of xs] by simp
  have vy: "0 \<le> cov_of ys ys" by (rule cov_self_nonneg)
  have rb: "- 1 \<le> ?r" "?r \<le> 1" by (rule r_of_bounds[OF len])+
  have m: "np_mean (map Fin xs) = Fin (mean_of xs)" "np_mean (map Fin ys) = Fin (mean_of ys)"
    using ne by (simp_all add: np_mean_finite)
  have c: "cov_bias (map Fin xs) (Fin (mean_of xs)) (map Fin xs) (Fin (mean_of xs)) = Fin (cov_of xs xs)"
     "cov_bias (map Fin xs) (Fin (mean_of xs)) (map Fin ys) (Fin (mean_of ys)) = Fin (cov_of xs ys)"
     "cov_bias (map Fin ys) (Fin (mean_of ys)) (map Fin ys) (Fin (mean_of ys)) = Fin (cov_of ys ys)"
    using ne len by (simp_all add: cov_bias_finite)
  have r: "linregress_r (Fin (cov_of xs xs)) (Fin (cov_of xs ys)) (Fin (cov_of ys ys)) = Fin ?r"
    by (rule linregress_r_finite[OF len var])
  have sl: "fdiv (Fin (cov_of xs ys)) (Fin (cov_of xs xs)) = Fin (cov_of xs ys / cov_of xs xs)"
    using var by simp
  have n2: "(int ?n = 2) = (?n = 2)" by auto
  have head: "linregress (map Fin xs) (map Fin ys) =
    Inr \<lparr>slope = fdiv (Fin (cov_of xs ys)) (Fin (cov_of xs xs)),
         intercept = fsub (Fin (mean_of ys)) (fmul (fdiv (Fin (cov_of xs ys)) (Fin (cov_of xs xs))) (Fin (mean_of xs))),
         rvalue = Fin ?r,
         pvalue = (if ?n = 2 then (if feq (map Fin ys ! 0) (map Fin ys ! 1) then Fin 1 else Fin 0)
                   else ttest_finish (int ?n - 2) (linregress_t (int ?n - 2) (Fin ?r))),
         stderr = (if ?n = 2 then Fin 0
                   else linregress_stderr (int ?n - 2) (Fin ?r) (Fin (cov_of xs xs)) (Fin (cov_of ys ys)))\<rparr>"
    unfolding linregress_def Let_def
    by (simp only: map_is_Nil_conv length_map lne n2 m c r if_False simp_thms)
  show ?thesis
  proof (cases "?n = 2")
    case True
    then have "feq (map Fin ys ! 0) (map Fin ys ! 1) = (ys ! 0 = ys ! 1)"
      using len by (simp add: feq_def)
    with True var show ?thesis
      unfolding head by (simp add: sl)
  next
    case False
    with variance_needs_two[OF var] have n3: "3 \<le> ?n"
      by simp
    have df: "0 < int ?n - 2" "nat (int ?n - 2) = ?n - 2"
      "\<not> int ?n - 2 \<le> 0" "real_of_int (int ?n - 2) = real (?n - 2)"
      using n3 by auto
    have t: "linregress_t (int ?n - 2) (Fin ?r) = Fin (t_stat (real (?n - 2)) ?r)"
      using linregress_t_finite[OF rb, of "int ?n - 2"] df(1) by (simp only: df(4))
    have se: "linregress_stderr (int ?n - 2) (Fin ?r) (Fin (cov_of xs xs)) (Fin (cov_of ys ys)) =
       Fin (sqrt ((1 - ?r * ?r) * cov_of ys ys / cov_of xs xs / real (?n - 2)))"
      using linregress_stderr_finite[OF rb df(1) vx vy] by (simp only: df(4))
    have p: "ttest_finish (int ?n - 2) (Fin (t_stat (real (?n - 2)) ?r)) =
        Fin (two_sided_p (?n - 2) (t_stat (real (?n - 2)) ?r))"
      using df(2,3) by simp
    from False show ?thesis
      unfolding head by (simp only: sl fmul.simps fsub_Fin if_False t se p)
  qed
qed

lemma linregress_NaN:
  assumes len: "length xs = length y" and n3: "3 \<le> length xs" and var: "cov_of xs xs \<noteq> 0"
    and nan: "NaN \<in> set y"
  shows "linregress (map Fin xs) y =
    Inr \<lparr>slope = NaN, intercept = NaN, rvalue = NaN, pvalue = NaN, stderr = NaN\<rparr>"
proof -
  let ?n = "length xs"
  have ne: "xs \<noteq> []" "y \<noteq> []" using n3 len by auto
  have lne: "(length xs \<noteq> length y) = False" "(xs = []) = False" "(y = []) = False"
      "(int ?n = 2) = False" "(1 < length xs \<and> all_identical (map Fin xs)) = False"
    using len ne n3 varying_covariate[OF var] by simp_all
  have m: "np_mean (map Fin xs) = Fin (mean_of xs)" "np_mean y = NaN"
    using ne nan by (simp_all add: np_mean_finite np_mean_NaN)
  have c: "cov_bias (map Fin xs) (Fin (mean_of xs)) (map Fin xs) (Fin (mean_of xs)) = Fin (cov_of xs xs)"
     "cov_bias (map Fin xs) (Fin (mean_of xs)) y NaN = NaN"
     "cov_bias y NaN y NaN = NaN"
    using ne len by (simp_all add: cov_bias_finite cov_bias_NaN_right)
  have r: "linregress_r (Fin (cov_of xs xs)) NaN NaN = NaN"
    using var by (simp add: linregress_r_def feq_def)
  have rest: "fdiv NaN (Fin (cov_of xs xs)) = NaN" "fsub NaN v = NaN"
    "linregress_t df NaN = NaN" "ttest_finish df NaN = NaN"
    "linregress_stderr df NaN (Fin (cov_of xs xs)) NaN = NaN" for v df
    by (simp_all add: linregress_t_def linregress_stderr_def)
  show ?thesis
    unfolding linregress_def Let_def
    by (simp only: map_is_Nil_conv length_map lne m c r rest if_False simp_thms)
qed





section \<open>Trends cell by cell\<close>

lemma collect_Inr: "collect rs = Inr vs \<Longrightarrow> rs = map Inr vs"
  by (induction rs arbitrary: vs) (auto split: sum.splits)

lemma collect_map_Inr: "collect (map Inr vs) = Inr vs"
  by (induction vs) auto

lemma collect_rows:
  "collect (map (\<lambda>row. collect (map f row)) rows) = Inr res \<Longrightarrow>
   map (map f) rows = map (map Inr) res"
proof (induction rows arbitrary: res)
  case Nil
  then show ?case by simp
next
  case (Cons row rows)
  then show ?case
    by (auto split: sum.splits dest: collect_Inr)
qed

lemma trend_Inr:
  assumes "trend x y cdim = Inr outs"
  shows "\<exists>res. map (map (linregress x)) (data y) = map (map Inr) res \<and>
    outs = [map (map slope) res, map (map intercept) res, map (map rvalue) res,
            map (map pvalue) res, map (map stderr) res]"
proof -
  from assms obtain res where
    c: "collect (map (\<lambda>row. collect (map (linregress x) row)) (data y)) = Inr res"
    and o: "outs = [map (map slope) res, map (map intercept) res, map (map rvalue) res,
                 map (map pvalue) res, map (map stderr) res]"
    by (auto simp: trend_def split: if_splits sum.splits)
  from collect_rows[OF c] o show ?thesis by blast
qed

lemma trend_cell:
  assumes "trend x y cdim = Inr outs" "i < length (data y)" "j < length (data y ! i)"
  shows "length outs = 5 \<and>
    (\<exists>r. linregress x (data y ! i ! j) = Inr r \<and>
          outs ! 0 ! i ! j = slope r \<and> outs ! 1 ! i ! j = intercept r \<and>
          outs ! 2 ! i ! j = rvalue r \<and> outs ! 3 ! i ! j = pvalue r \<and>
          outs ! 4 ! i ! j = stderr r)"
proof -
  from trend_Inr[OF assms(1)] obtain res where
    m: "map (map (linregress x)) (data y) = map (map Inr) res"
    and o: "outs = [map (map slope) res, map (map intercept) res, map (map rvalue) res,
                 map (map pvalue) res, map (map stderr) res]"
    by blast
  from m have len: "length res = length (data y)"
    by (metis length_map)
  from m assms(2) have row: "map (linregress x) (data y ! i) = map Inr (res ! i)"
    by (metis len nth_map)
  then have len2: "length (res ! i) = length (data y ! i)"
    by (metis length_map)
  from row assms(3) have "linregress x (data y ! i ! j) = Inr (res ! i ! j)"
    by (metis len2 nth_map)
  with o assms(2,3) len len2 show ?thesis
    by simp
qed

lemma assign_trends_Inr:
  assumes "assign_trends da = Inr da'"
  shows "\<exists>arrs. trend (time_year da) da ''time'' = Inr arrs \<and> length arrs = 5
    \<and> da' = da\<lparr>coords := (coords da)(''slope'' \<mapsto> arrs ! 0, ''intercept'' \<mapsto> arrs ! 1,
           ''rvalue'' \<mapsto> arrs ! 2, ''pvalue'' \<mapsto> arrs ! 3, ''stderr'' \<mapsto> arrs ! 4)\<rparr>"
proof -
  from assms obtain arrs where t: "trend (time_year da) da ''time'' = Inr arrs"
    and d: "da' = fold (\<lambda>(arr_name, arr) d. setitem d arr_name arr) (zip trend_names arrs) da"
    by (auto simp: assign_trends_def split: sum.splits)
  from trend_Inr[OF t] obtain res :: "linregress_result list list" where "arrs = [map (map slope) res, map (map intercept) res, map (map rvalue) res,
                 map (map pvalue) res, map (map stderr) res]"
    by blast
  with d have "length arrs = 5" "da' = da\<lparr>coords := (coords da)(''slope'' \<mapsto> arrs ! 0, ''intercept'' \<mapsto> arrs ! 1,
           ''rvalue'' \<mapsto> arrs ! 2, ''pvalue'' \<mapsto> arrs ! 3, ''stderr'' \<mapsto> arrs ! 4)\<rparr>"
    by (simp_all add: trend_names_def setitem_def)
  with t show ?thesis by blast
qed


lemma collect_all_Inr:
  assumes "\<And>v. v \<in> set vs \<Longrightarrow> \<exists>r. f v = Inr r"
  shows "\<exists>rs. collect (map f vs) = Inr rs"
  using assms
proof (induction vs)
  case Nil
  then show ?case by simp
next
  case (Cons v vs)
  then obtain r rs where "f v = Inr r" "collect (map f vs) = Inr rs"
    by (metis list.set_intros(1) list.set_intros(2))
  then show ?case by simp
qed

lemma linregress_defined:
  assumes "x \<noteq> []" "length y = length x" "\<not> (1 < length x \<and> all_identical x)"
  shows "\<exists>r. linregress x y = Inr r"
proof -
  from assms have "y \<noteq> []" by auto
  with assms show ?thesis
    by (simp add: linregress_def Let_def)
qed

lemma trend_total:
  assumes cells: "concat (data y) \<noteq> []"
    and x: "x \<noteq> []" "\<not> (1 < length x \<and> all_identical x)"
    and shape: "\<And>row ser. row \<in> set (data y) \<Longrightarrow> ser \<in> set row \<Longrightarrow> length ser = length x"
  shows "\<exists>outs. trend x y ''time'' = Inr outs"
proof -
  have "\<exists>rs. collect (map (linregress x) row) = Inr rs" if "row \<in> set (data y)" for row
    using shape[OF that] x by (intro collect_all_Inr linregress_defined)
  then have "\<exists>res. collect (map (\<lambda>row. collect (map (linregress x) row)) (data y)) = Inr res"
    by (rule collect_all_Inr)
  then obtain res :: "linregress_result list list" 
    where "collect (map (\<lambda>row. collect (map (linregress x) row)) (data y)) = Inr res"
    by blast
  with cells show ?thesis
    by (simp add: trend_def)
qed

lemma trend_cell_value:
  assumes "trend x y cdim = Inr outs" "i < length (data y)" "j < length (data y ! i)"
    and "linregress x (data y ! i ! j) = Inr r"
  shows "outs ! 0 ! i ! j = slope r" "outs ! 1 ! i ! j = intercept r"
    "outs ! 2 ! i ! j = rvalue r" "outs ! 3 ! i ! j = pvalue r" "outs ! 4 ! i ! j = stderr r"
  using trend_cell[OF assms(1-3)] assms(4) by auto


lemma warming_years: "time_year warming = map Fin [1979, 1980, 1981, 1982]"
  by (simp add: time_year_def warming_def)

lemma warming_stats:
  "mean_of [1979, 1980, 1981, 1982] = 3961 / 2"
  "mean_of [1, 3, 5, 7] = 4"
  "cov_of [1979, 1980, 1981, 1982] [1979, 1980, 1981, 1982] = 5 / 4"
  "cov_of [1979, 1980, 1981, 1982] [1, 3, 5, 7] = 5 / 2"
  "cov_of [1, 3, 5, 7] [1, 3, 5, 7] = 5"
  by (simp_all add: mean_of_def cov_of_def)

lemma warming_cell0:
  "linregress [Fin 1979, Fin 1980, Fin 1981, Fin 1982] [Fin 1, Fin 3, Fin 5, Fin 7] =
     Inr \<lparr>slope = Fin 2, intercept = Fin (- 3957), rvalue = Fin 1,
          pvalue = Fin (two_sided_p 2 (t_stat 2 1)), stderr = Fin 0\<rparr>"
proof -
  have s: "sqrt (25 / 4) = 5 / 2"
    by (rule real_sqrt_unique) (simp_all add: power2_eq_square)
  have "r_of [1979, 1980, 1981, 1982] [1, 3, 5, 7] = 1"
    by (simp add: r_of_def pearson_def warming_stats s)
  then show ?thesis
    using linregress_finite[of "[1979, 1980, 1981, 1982]" "[1, 3, 5, 7]"]
    by (simp add: warming_stats numeral_2_eq_2)
qed

lemma warming_cell1:
  "linregress [Fin 1979, Fin 1980, Fin 1981, Fin 1982] [Fin 1, Fin 3, Fin 5, NaN] =
     Inr \<lparr>slope = NaN, intercept = NaN, rvalue = NaN, pvalue = NaN, stderr = NaN\<rparr>"
  using linregress_NaN[of "[1979, 1980, 1981, 1982]" "[Fin 1, Fin 3, Fin 5, NaN]"]
  by (simp add: warming_stats)

lemma trend_warming:
  "trend (time_year warming) warming ''time'' =
     Inr [[[Fin 2, NaN]], [[Fin (- 3957), NaN]], [[Fin 1, NaN]],
          [[Fin (two_sided_p 2 (t_stat 2 1)), NaN]], [[Fin 0, NaN]]]"
proof -
  have "data warming = [[[Fin 1, Fin 3, Fin 5, Fin 7], [Fin 1, Fin 3, Fin 5, NaN]]]"
    by (simp add: warming_def)
  then show ?thesis
    unfolding trend_def warming_years
    by (simp add: warming_cell0 warming_cell1)
qed



lemma cell_exists:
  assumes "i < length (data y)" "j < length (data y ! i)"
  shows "concat (data y) \<noteq> []"
proof -
  from assms have "data y ! i \<in> set (data y)" "data y ! i \<noteq> []" by auto
  then show ?thesis by auto
qed

lemma trend_cell_local:
  assumes t: "trend x y ''time'' = Inr outs" and i: "i < length (data y)"
    and j: "j < length (data y ! i)"
    and t': "trend x y' ''time'' = Inr outs'" and i': "i < length (data y')"
    and j': "j < length (data y' ! i)"
    and same: "data y' ! i ! j = data y ! i ! j" and k: "k < (5::nat)"
  shows "outs' ! k ! i ! j = outs ! k ! i ! j"
proof -
  from trend_cell[OF t i j] obtain r where r: "linregress x (data y ! i ! j) = Inr r"
    by blast
  then have r': "linregress x (data y' ! i ! j) = Inr r"
    using same by simp
  from k have "k = 0 \<or> k = 1 \<or> k = 2 \<or> k = 3 \<or> k = 4" by arith
  then show ?thesis
    using trend_cell_value[OF t i j r] trend_cell_value[OF t' i' j' r'] by auto
qed




text \<open>
  C2, as the code has it.  \<open>linregress\<close> does not drop missing time points.  On a
  field whose series all have the length of the covariate, with at least three time
  steps and distinct covariate values, \<open>trend\<close> raises nothing, and a cell whose
  series holds a NaN gets NaN in all five outputs, however many valid points it has.
  The outputs of any other cell are what they are for any field with the same series
  at that cell.
\<close>

theorem missing_value_marks_cell_only:
  assumes shape: "\<forall>row \<in> set (data y). \<forall>ser \<in> set row. length ser = length xs"
    and n3: "3 \<le> length xs" and dist: "distinct xs"
    and i: "i < length (data y)" and j: "j < length (data y ! i)"
    and nan: "NaN \<in> set (data y ! i ! j)"
  shows "\<exists>outs. trend (map Fin xs) y ''time'' = Inr outs
    \<and> (\<forall>k < 5. outs ! k ! i ! j = NaN)
    \<and> (trend (map Fin xs) y' ''time'' = Inr outs' \<and>
         i' < length (data y) \<and> j' < length (data y ! i') \<and>
         i' < length (data y') \<and> j' < length (data y' ! i') \<and>
         data y' ! i' ! j' = data y ! i' ! j' \<longrightarrow>
         (\<forall>k < 5. outs' ! k ! i' ! j' = outs ! k ! i' ! j'))"
proof -
  from n3 have x: "map Fin xs \<noteq> []" by auto
  from shape have "length ser = length (map Fin xs)"
    if "row \<in> set (data y)" "ser \<in> set row" for row ser
    using that by simp
  moreover have var: "cov_of xs xs \<noteq> 0"
    using dist n3 by (intro distinct_variance) auto
  ultimately obtain outs where t: "trend (map Fin xs) y ''time'' = Inr outs"
    using trend_total[of y "map Fin xs"] cell_exists[OF i j] x varying_covariate(2)[OF var]
    by blast
  from i j shape have len: "length xs = length (data y ! i ! j)"
    by (metis nth_mem)
  note cell = trend_cell_value[OF t i j linregress_NaN[OF len n3 var nan]]
  have "outs ! k ! i ! j = NaN" if "k < 5" for k
  proof -
    from that have "k = 0 \<or> k = 1 \<or> k = 2 \<or> k = 3 \<or> k = 4" by arith
    with cell show ?thesis by auto
  qed
  moreover have "\<forall>k < 5. outs' ! k ! i' ! j' = outs ! k ! i' ! j'"
    if "trend (map Fin xs) y' ''time'' = Inr outs' \<and>
         i' < length (data y) \<and> j' < length (data y ! i') \<and>
         i' < length (data y') \<and> j' < length (data y' ! i') \<and>
         data y' ! i' ! j' = data y ! i' ! j'"
    using trend_cell_local[OF t, of i' j' y' outs'] that by blast
  ultimately show ?thesis
    using t by blast
qed

theorem missing_value_marks_cell_only_witness:
  "\<exists>outs. trend (time_year warming) warming ''time'' = Inr outs
     \<and> outs ! 0 ! 0 ! 1 = NaN \<and> outs ! 4 ! 0 ! 1 = NaN \<and> outs ! 0 ! 0 ! 0 = Fin 2"
proof -
  have "\<forall>row \<in> set (data warming). \<forall>ser \<in> set row.
      length ser = length [1979, 1980, 1981, 1982 :: real]"
    "3 \<le> length [1979, 1980, 1981, 1982 :: real]" "distinct [1979, 1980, 1981, 1982 :: real]"
    "0 < length (data warming)" "1 < length (data warming ! 0)"
    "NaN \<in> set (data warming ! 0 ! 1)"
    by (simp_all add: warming_def)
  from missing_value_marks_cell_only[OF this, of warming "[]" 0 0]
  obtain outs where t: "trend (map Fin [1979, 1980, 1981, 1982]) warming ''time'' = Inr outs"
    and m: "\<forall>k < 5. outs ! k ! 0 ! 1 = NaN"
    by blast
  from m have "outs ! 0 ! 0 ! 1 = NaN" "outs ! 4 ! 0 ! 1 = NaN"
    by simp_all
  moreover from t have "outs ! 0 ! 0 ! 0 = Fin 2"
    unfolding warming_years[symmetric] trend_warming by auto
  ultimately show ?thesis
    using t unfolding warming_years[symmetric] by blast
qed

theorem missing_point_not_excluded:
  "map_sum id (\<lambda>outs. outs ! 0 ! 0 ! 1) (trend (time_year warming) warming ''time'') = Inr NaN
   \<and> data warming ! 0 ! 1 = [Fin 1, Fin 3, Fin 5, NaN]
   \<and> map_sum id slope (linregress [Fin 1979, Fin 1980, Fin 1981] [Fin 1, Fin 3, Fin 5])
       = Inr (Fin 2)"
proof -
  have st: "mean_of [1979, 1980, 1981] = 1980" "mean_of [1, 3, 5] = 3"
    "cov_of [1979, 1980, 1981] [1979, 1980, 1981] = 2 / 3"
    "cov_of [1979, 1980, 1981] [1, 3, 5] = 4 / 3"
    by (simp_all add: mean_of_def cov_of_def)
  have "map_sum id slope (linregress (map Fin [1979, 1980, 1981]) (map Fin [1, 3, 5]))
       = Inr (Fin 2)"
    by (subst linregress_finite) (simp_all add: st)
  moreover have "map_sum id (\<lambda>outs. outs ! 0 ! 0 ! 1) (trend (time_year warming) warming ''time'')
      = Inr NaN"
    by (simp add: trend_warming)
  moreover have "data warming ! 0 ! 1 = [Fin 1, Fin 3, Fin 5, NaN]"
    by (simp add: warming_def)
  ultimately show ?thesis
    by simp
qed

section \<open>Exactly linear series\<close>














section \<open>Storing the trends\<close>

lemma assign_trends_effect:
  assumes "assign_trends da = Inr da'"
  shows "data da' = data da \<and> time da' = time da \<and> latitude da' = latitude da
    \<and> longitude da' = longitude da
    \<and> (\<forall>name. name \<notin> set trend_names \<longrightarrow> coords da' name = coords da name)
    \<and> set trend_names \<subseteq> dom (coords da')
    \<and> trend (time_year da) da ''time'' =
        Inr (map (\<lambda>name. the (coords da' name)) trend_names)"
proof -
  from assign_trends_Inr[OF assms] obtain arrs where t: "trend (time_year da) da ''time'' = Inr arrs"
    and l: "length arrs = 5"
    and d: "da' = da\<lparr>coords := (coords da)(''slope'' \<mapsto> arrs ! 0, ''intercept'' \<mapsto> arrs ! 1,
           ''rvalue'' \<mapsto> arrs ! 2, ''pvalue'' \<mapsto> arrs ! 3, ''stderr'' \<mapsto> arrs ! 4)\<rparr>"
    by blast
  from l have "arrs = [arrs ! 0, arrs ! 1, arrs ! 2, arrs ! 3, arrs ! 4]"
    by (auto simp: list_eq_iff_nth_eq less_Suc_eq eval_nat_numeral)
  then have "map (\<lambda>name. the (coords da' name)) trend_names = arrs"
    unfolding d by (simp add: trend_names_def)
  then show ?thesis
    using t unfolding d by (simp add: trend_names_def)
qed

text \<open>
  C8, as the code has it.  \<open>trend\<close> is a function of its arguments and changes
  neither.  The loop that stores its outputs updates \<open>da_year\<close> in place: on an
  array with at least one cell, whose series all have the length of the time axis and
  whose years are not all the same, the loop runs to its end, and after it the array
  carries the five coordinates slope, intercept, rvalue, pvalue and stderr, which hold
  the outputs of \<open>trend\<close>; its values, its time, latitude and longitude axes and
  every other coordinate are as before.
\<close>

theorem assign_trends_frame:
  assumes cells: "concat (data da) \<noteq> []"
    and x: "time da \<noteq> []" "\<not> (1 < length (time da) \<and> all_identical (time_year da))"
    and shape: "\<forall>row \<in> set (data da). \<forall>ser \<in> set row. length ser = length (time da)"
  shows "\<exists>da'. assign_trends da = Inr da'
    \<and> data da' = data da \<and> time da' = time da \<and> latitude da' = latitude da
    \<and> longitude da' = longitude da
    \<and> (\<forall>name. name \<notin> set trend_names \<longrightarrow> coords da' name = coords da name)
    \<and> set trend_names \<subseteq> dom (coords da')
    \<and> trend (time_year da) da ''time'' =
        Inr (map (\<lambda>name. the (coords da' name)) trend_names)"
proof -
  from x have "time_year da \<noteq> []"
    "\<not> (1 < length (time_year da) \<and> all_identical (time_year da))"
    by (simp_all add: time_year_def)
  moreover from shape have "length ser = length (time_year da)"
    if "row \<in> set (data da)" "ser \<in> set row" for row ser
    using that by (simp add: time_year_def)
  ultimately obtain outs where "trend (time_year da) da ''time'' = Inr outs"
    using trend_total[of da "time_year da"] cells by blast
  then obtain da' where a: "assign_trends da = Inr da'"
    by (simp add: assign_trends_def)
  show ?thesis
    by (rule exI[of _ da'], rule conjI[OF a], rule assign_trends_effect[OF a])
qed

theorem assign_trends_frame_witness:
  "\<exists>da'. assign_trends warming = Inr da' \<and> data da' = data warming
      \<and> coords da' ''units'' = coords warming ''units''
      \<and> coords da' ''rvalue'' = Some [[Fin 1, NaN]]"
proof -
  have g: "concat (data warming) \<noteq> []" "time warming \<noteq> []"
    "\<not> (1 < length (time warming) \<and> all_identical (time_year warming))"
    "\<forall>row \<in> set (data warming). \<forall>ser \<in> set row. length ser = length (time warming)"
    by (simp_all add: warming_def time_year_def all_identical_def feq_def)
  from assign_trends_frame[OF g] obtain da' where a: "assign_trends warming = Inr da'"
    and d: "data da' = data warming"
    and c: "\<forall>name. name \<notin> set trend_names \<longrightarrow> coords da' name = coords warming name"
    by blast
  have "''units'' \<notin> set trend_names"
    by (simp add: trend_names_def)
  with c have "coords da' ''units'' = coords warming ''units''"
    by blast
  moreover from a have "coords da' ''rvalue'' = Some [[Fin 1, NaN]]"
    by (auto simp: assign_trends_def trend_warming trend_names_def setitem_def)
  ultimately show ?thesis using a d by blast
qed

theorem assignment_changes_da_year:
  "map_sum id (\<lambda>d. coords d ''slope'') (assign_trends warming) = Inr (Some [[Fin 2, NaN]])
   \<and> coords warming ''slope'' = None"
  by (simp add: assign_trends_def trend_warming trend_names_def setitem_def)
     (simp add: warming_def)

section \<open>The spatial average of a uniform field\<close>

lemma normalized_weights_sum:
  assumes "weight_sum wvs \<noteq> 0"
  shows "sum_list (normalized_weights wvs) = 1"
proof -
  have "sum_list (normalized_weights wvs) =
      (\<Sum>p\<leftarrow>included wvs. fst p * (1 / weight_sum wvs))"
    by (simp add: normalized_weights_def case_prod_unfold)
  also have "\<dots> = sum_list (map fst (included wvs)) * (1 / weight_sum wvs)"
    by (simp only: sum_list_mult_const)
  finally show ?thesis
    using assms by (simp add: weight_sum_def)
qed

lemma weighted_mean_constant:
  assumes const: "\<forall>(w, v) \<in> set wvs. v = NaN \<or> v = Fin c"
    and pos: "weight_sum wvs \<noteq> 0"
  shows "weighted_mean wvs = Fin c"
proof -
  have "map (\<lambda>(w, v). fmul (Fin w) v) (included wvs) =
      map Fin (map (\<lambda>(w, v). w * c) (included wvs))"
    using const by (auto simp: included_def isnull_def)
  then have "fsum (map (\<lambda>(w, v). fmul (Fin w) v) (included wvs)) =
      Fin (\<Sum>p\<leftarrow>included wvs. fst p * c)"
    by (simp only: fsum_Fin case_prod_unfold)
  also have "(\<Sum>p\<leftarrow>included wvs. fst p * c) = weight_sum wvs * c"
    by (simp only: sum_list_mult_const weight_sum_def)
  finally show ?thesis
    using pos by (simp add: weighted_mean_def)
qed

lemma coslat_nonneg:
  assumes "\<bar>lat\<bar> \<le> 90"
  shows "0 \<le> coslat lat"
proof -
  have "- 90 * (pi / 180) \<le> lat * (pi / 180)" "lat * (pi / 180) \<le> 90 * (pi / 180)"
    using assms by (intro mult_right_mono; simp)+
  then show ?thesis
    unfolding coslat_def by (intro cos_ge_zero) simp_all
qed

lemma coslat_pos:
  assumes "\<bar>lat\<bar> < 90"
  shows "0 < coslat lat"
proof -
  have "- 90 * (pi / 180) < lat * (pi / 180)" "lat * (pi / 180) < 90 * (pi / 180)"
    using assms by (intro mult_strict_right_mono; simp)+
  then show ?thesis
    unfolding coslat_def by (intro cos_gt_zero_pi) simp_all
qed

lemma sum_list_pos_member:
  fixes xs :: "real list"
  assumes "\<forall>x \<in> set xs. 0 \<le> x" "y \<in> set xs" "0 < y"
  shows "0 < sum_list xs"
  using assms
proof (induction xs)
  case Nil
  then show ?case by simp
next
  case (Cons x xs)
  then have "0 \<le> sum_list xs" by (intro sum_list_nonneg) simp
  with Cons show ?case
    by (cases "y = x") (auto intro: add_pos_nonneg add_nonneg_pos)
qed

lemma weight_sum_pos:
  assumes "\<forall>(w, v) \<in> set wvs. 0 \<le> w" "(w, v) \<in> set wvs" "v \<noteq> NaN" "0 < w"
  shows "0 < weight_sum wvs"
proof -
  have "w \<in> set (map fst (included wvs))"
    using assms(2,3) by (force simp: included_def isnull_def)
  moreover have "\<forall>x \<in> set (map fst (included wvs)). 0 \<le> x"
    using assms(1) by (auto simp: included_def)
  ultimately show ?thesis
    unfolding weight_sum_def using assms(4) by (intro sum_list_pos_member[of _ w]) auto
qed

lemma cells_at_latitude:
  assumes "(lat, v) \<in> set (cells_at d t)"
  shows "lat \<in> set (latitude d)"
  using assms by (auto simp: cells_at_def dest: set_zip_leftD)


text \<open>
  C3.  The spatial average has one scalar per time step: the sum of the values of the
  cells that are not missing, weighted by the cosine of their latitude, over the sum
  of those weights, so that the normalised weights of the included cells sum to 1.
  At a time step where every cell that is not missing holds the same value \<open>c\<close>
  (and at least one such cell lies off the poles, so that the weights can be
  normalised), the average is exactly \<open>c\<close>, whatever the latitudes are.
\<close>

theorem uniform_field_average:
  assumes t: "t < length (time d)"
    and const: "\<forall>(lat, v) \<in> set (cells_at d t). v = NaN \<or> v = Fin c"
    and lats: "\<forall>lat \<in> set (latitude d). \<bar>lat\<bar> \<le> 90"
    and some: "(lat0, Fin c) \<in> set (cells_at d t)" "\<bar>lat0\<bar> < 90"
  shows "spatial_average d ! t = Fin c
    \<and> length (spatial_average d) = length (time d)
    \<and> spatial_average d ! t =
        weighted_mean (map (\<lambda>(lat, v). (coslat lat, v)) (cells_at d t))
    \<and> sum_list (normalized_weights (map (\<lambda>(lat, v). (coslat lat, v)) (cells_at d t))) = 1"
proof -
  let ?wvs = "map (\<lambda>(lat, v). (coslat lat, v)) (cells_at d t)"
  have avg: "spatial_average d ! t = weighted_mean ?wvs"
    using t by (simp add: spatial_average_def)
  have c: "\<forall>(w, v) \<in> set ?wvs. v = NaN \<or> v = Fin c"
    using const by auto
  have nn: "\<forall>(w, v) \<in> set ?wvs. 0 \<le> w"
    using lats by (auto dest!: cells_at_latitude intro!: coslat_nonneg)
  have mem: "(coslat lat0, Fin c) \<in> set ?wvs"
    using some(1) by force
  have pos: "0 < weight_sum ?wvs"
    using nn mem _ coslat_pos[OF some(2)] by (rule weight_sum_pos) simp
  then have nz: "weight_sum ?wvs \<noteq> 0" by simp
  have "length (spatial_average d) = length (time d)"
    by (simp add: spatial_average_def)
  with weighted_mean_constant[OF c nz] normalized_weights_sum[OF nz] avg
  show ?thesis by simp
qed


theorem uniform_field_average_witness:
  "spatial_average polar ! 0 = Fin 5 \<and> spatial_average polar ! 1 = Fin 5"
proof -
  have c0: "cells_at polar 0 = [(90, Fin 5), (90, NaN), (60, Fin 5), (60, Fin 5), (0, NaN), (0, Fin 5)]"
    and c1: "cells_at polar 1 = [(90, Fin 5), (90, Fin 5), (60, NaN), (60, Fin 5), (0, Fin 5), (0, NaN)]"
    by (simp_all add: cells_at_def polar_def)
  have l: "length (time polar) = 2" "\<forall>lat \<in> set (latitude polar). \<bar>lat\<bar> \<le> 90"
    by (simp_all add: polar_def month_seq_length)
  from uniform_field_average[of 0 polar 5 60] uniform_field_average[of 1 polar 5 60]
  show ?thesis
    unfolding c0 c1 using l by simp
qed

section \<open>Sizes just below a power of 1024\<close>

lemma bit_length_numeral [simp]:
  "bit_length (numeral k) = Suc (bit_length (numeral k div 2))"
  "bit_length 0 = 0" "bit_length (Suc 0) = 1"
  by (simp_all add: bit_length.simps[of "numeral k"] bit_length.simps[of 0] bit_length.simps[of "Suc 0"])

lemma bit_length_below: "bit_length (2 ^ 90 - 1) = 90"
  by simp

lemma bit_length_top: "bit_length (2 ^ 90) = 91"
  by simp

lemma float_of_int_below: "float_of_int (2 ^ 90 - 1) = Inr (2 ^ 90)"
  unfolding float_of_int_def by (simp add: Let_def bit_length_below nat_diff_distrib nat_power_eq)

lemma float_of_int_top: "float_of_int (2 ^ 90) = Inr (2 ^ 90)"
  unfolding float_of_int_def by (simp add: Let_def bit_length_top nat_power_eq)

lemma log_1024_top: "log 1024 (2 ^ 90) = 9"
proof -
  have "(2::real) ^ 90 = 1024 ^ 9" by simp
  then have "log 1024 (2 ^ 90) = log 1024 (1024 ^ 9)" by (simp only:)
  also have "\<dots> = real 9" by (rule log_pow_cancel) simp_all
  finally show ?thesis by simp
qed

text \<open>
  C9.  The size \<open>2 ^ 90 - 1\<close> lies below \<open>1024 ^ 9\<close>, but it converts to the float
  \<open>2 ^ 90\<close>: on every platform \<^verbatim>\<open>convert_size\<close> does on it what it does on \<open>2 ^ 90\<close>, so
  that the index into the nine unit names is not in bounds exactly below \<open>1024 ^ 9\<close>.
  Where \<^verbatim>\<open>math.log(2.0 ** 90, 1024)\<close> is \<open>9\<close>, its exact value, the index is 9 and
  \<^verbatim>\<open>convert_size(2 ** 90 - 1)\<close> raises \<^verbatim>\<open>IndexError\<close>.
\<close>

theorem convert_size_raises_below_limit:
  "(0::int) < 2 ^ 90 - 1 \<and> (2::int) ^ 90 - 1 < 1024 ^ 9
   \<and> convert_size m (2 ^ 90 - 1) = convert_size m (2 ^ 90)
   \<and> (log_1024 m (2 ^ 90) = 9 \<longrightarrow> convert_size m (2 ^ 90 - 1) = Inl IndexError)"
proof -
  have same: "convert_size m (2 ^ 90 - 1) = convert_size m (2 ^ 90)"
    unfolding convert_size_def math_log_def truediv_def float_of_int_below float_of_int_top
    by simp
  have "convert_size m (2 ^ 90) = Inl IndexError" if "log_1024 m (2 ^ 90) = 9"
    unfolding convert_size_def math_log_def truediv_def float_of_int_top
    using that by (simp add: math_pow_def tuple_getitem_def size_name_def)
  with same show ?thesis by simp
qed

theorem convert_size_raises_below_limit_witness:
  "convert_size exact_libm (2 ^ 90 - 1) = Inl IndexError"
proof -
  have "log_1024 exact_libm (2 ^ 90) = 9"
    unfolding exact_libm_def libm.simps by (rule log_1024_top)
  with convert_size_raises_below_limit [of exact_libm] show ?thesis by blast
qed


end
